theory Spec2Isabelle
  imports Main "HOL-Library.Word" "HOL-Library.List_Lexorder" "HOL-Library.Sublist"
begin

unbundle bit_operations_syntax

section \<open>JavaScript values used by the asset catalog table\<close>

text \<open>
  A JavaScript string is a sequence of 16-bit code units, and \<open><\<close>, \<open><=\<close> on strings
  compare code unit by code unit, a proper prefix being smaller. That is the
  lexicographic order of lists over the unsigned order of \<open>16 word\<close>.
\<close>

type_synonym code_unit = "16 word"
type_synonym js_string = "code_unit list"

text \<open>ASCII literals, for writing concrete strings.\<close>

definition lit :: "string \<Rightarrow> js_string" where
  "lit s = map (\<lambda>c. of_nat (of_char c)) s"

datatype js_error = TypeError | SyntaxError

subsection \<open>\<open>JSON.stringify\<close> on an array of strings\<close>

text \<open>
  ECMA-262, \<open>QuoteJSONString\<close>: the string is read code point by code point (a leading
  surrogate followed by a trailing surrogate is one code point, any other surrogate
  stands alone). Backspace, tab, line feed, form feed, carriage return, the quotation
  mark and the backslash have two-character escapes; other code points below
  \<open>0x20\<close> and lone surrogates are written \<open>\uXXXX\<close> with lower-case hexadecimal digits;
  everything else is copied.
\<close>

definition is_leading_surrogate :: "code_unit \<Rightarrow> bool" where
  "is_leading_surrogate c \<longleftrightarrow> 0xD800 \<le> c \<and> c \<le> 0xDBFF"

definition is_trailing_surrogate :: "code_unit \<Rightarrow> bool" where
  "is_trailing_surrogate c \<longleftrightarrow> 0xDC00 \<le> c \<and> c \<le> 0xDFFF"

definition hex_digit :: "code_unit \<Rightarrow> code_unit" where
  "hex_digit n = (if n < 10 then 0x30 + n else 0x57 + n)"

definition UnicodeEscape :: "code_unit \<Rightarrow> js_string" where
  "UnicodeEscape c =
     [0x5C, 0x75, hex_digit (drop_bit 12 c AND 0xF), hex_digit (drop_bit 8 c AND 0xF),
      hex_digit (drop_bit 4 c AND 0xF), hex_digit (c AND 0xF)]"

definition quote_code_point :: "code_unit \<Rightarrow> js_string" where
  "quote_code_point c =
     (if c = 0x08 then [0x5C, 0x62]
      else if c = 0x09 then [0x5C, 0x74]
      else if c = 0x0A then [0x5C, 0x6E]
      else if c = 0x0C then [0x5C, 0x66]
      else if c = 0x0D then [0x5C, 0x72]
      else if c = 0x22 then [0x5C, 0x22]
      else if c = 0x5C then [0x5C, 0x5C]
      else if c < 0x20 \<or> is_leading_surrogate c \<or> is_trailing_surrogate c
      then UnicodeEscape c
      else [c])"

fun quote_code_points :: "js_string \<Rightarrow> js_string" where
  "quote_code_points [] = []"
| "quote_code_points [c] = quote_code_point c"
| "quote_code_points (c # d # cs) =
     (if is_leading_surrogate c \<and> is_trailing_surrogate d
      then c # d # quote_code_points cs
      else quote_code_point c @ quote_code_points (d # cs))"

definition QuoteJSONString :: "js_string \<Rightarrow> js_string" where
  "QuoteJSONString s = [0x22] @ quote_code_points s @ [0x22]"

text \<open>\<open>Array.prototype.join\<close> on an array of strings.\<close>

fun Array_join :: "js_string \<Rightarrow> js_string list \<Rightarrow> js_string" where
  "Array_join sep [] = []"
| "Array_join sep [x] = x"
| "Array_join sep (x # y # ys) = x @ sep @ Array_join sep (y # ys)"

text \<open>
  \<open>SerializeJSONArray\<close> without indentation: \<open>[]\<close> for the empty array, otherwise the
  quoted elements separated by commas between square brackets.
\<close>

definition JSON_stringify :: "js_string list \<Rightarrow> js_string" where
  "JSON_stringify xs =
     (if xs = [] then [0x5B, 0x5D]
      else [0x5B] @ Array_join [0x2C] (map QuoteJSONString xs) @ [0x5D])"



subsection \<open>\<open>JSON.parse\<close> on the text of an array of strings\<close>

text \<open>
  The only texts the table parses are the ones it has just produced with
  \<open>JSON.stringify\<close> from arrays of strings, so the parser covers the JSON grammar of an
  array of strings (with insignificant white space and every string escape); any other
  text is a \<open>SyntaxError\<close> here, written \<open>None\<close>.
\<close>

definition unhex :: "code_unit \<Rightarrow> code_unit option" where
  "unhex h =
     (if 0x30 \<le> h \<and> h \<le> 0x39 then Some (h - 0x30)
      else if 0x61 \<le> h \<and> h \<le> 0x66 then Some (h - 0x57)
      else if 0x41 \<le> h \<and> h \<le> 0x46 then Some (h - 0x37)
      else None)"

definition hex4 :: "code_unit \<Rightarrow> code_unit \<Rightarrow> code_unit \<Rightarrow> code_unit \<Rightarrow> code_unit option" where
  "hex4 h1 h2 h3 h4 =
     (case (unhex h1, unhex h2, unhex h3, unhex h4) of
        (Some a, Some b, Some c, Some d) \<Rightarrow>
          Some (push_bit 12 a OR push_bit 8 b OR push_bit 4 c OR d)
      | _ \<Rightarrow> None)"

definition single_escape :: "code_unit \<Rightarrow> code_unit option" where
  "single_escape e =
     (if e = 0x22 then Some 0x22
      else if e = 0x5C then Some 0x5C
      else if e = 0x2F then Some 0x2F
      else if e = 0x62 then Some 0x08
      else if e = 0x66 then Some 0x0C
      else if e = 0x6E then Some 0x0A
      else if e = 0x72 then Some 0x0D
      else if e = 0x74 then Some 0x09
      else None)"

text \<open>
  The characters of a string after its opening quotation mark: the decoded string and
  the text after the closing quotation mark.
\<close>

fun parse_chars :: "js_string \<Rightarrow> (js_string \<times> js_string) option" where
  "parse_chars [] = None"
| "parse_chars (c # cs) =
     (if c = 0x22 then Some ([], cs)
      else if c = 0x5C then
        (case cs of
           [] \<Rightarrow> None
         | e # es \<Rightarrow>
             if e = 0x75 then
               (case es of
                  h1 # h2 # h3 # h4 # rest \<Rightarrow>
                    (case hex4 h1 h2 h3 h4 of
                       None \<Rightarrow> None
                     | Some u \<Rightarrow> map_option (apfst ((#) u)) (parse_chars rest))
                | _ \<Rightarrow> None)
             else
               (case single_escape e of
                  None \<Rightarrow> None
                | Some u \<Rightarrow> map_option (apfst ((#) u)) (parse_chars es)))
      else if c < 0x20 then None
      else map_option (apfst ((#) c)) (parse_chars cs))"

definition is_ws :: "code_unit \<Rightarrow> bool" where
  "is_ws c \<longleftrightarrow> c = 0x20 \<or> c = 0x09 \<or> c = 0x0A \<or> c = 0x0D"

definition skip_ws :: "js_string \<Rightarrow> js_string" where
  "skip_ws t = dropWhile is_ws t"

lemma parse_chars_shorter: "parse_chars t = Some (s, r) \<Longrightarrow> length r < length t"
proof (induction t arbitrary: s r rule: parse_chars.induct)
  case 1
  then show ?case by simp
next
  case (2 c cs)
  then show ?case
    by (fastforce split: if_splits list.splits option.splits)
qed

lemma skip_ws_shorter: "skip_ws t = x # r \<Longrightarrow> length r < length t"
proof -
  assume a: "skip_ws t = x # r"
  have "length (skip_ws t) \<le> length t"
    unfolding skip_ws_def by (rule length_dropWhile_le)
  with a show ?thesis by simp
qed

text \<open>The elements of a non-empty array, up to the closing bracket and the end of the text.\<close>

function parse_elements :: "js_string \<Rightarrow> js_string list option" where
  "parse_elements t =
     (case skip_ws t of
        [] \<Rightarrow> None
      | q # r \<Rightarrow>
          if q \<noteq> 0x22 then None
          else
            (case parse_chars r of
               None \<Rightarrow> None
             | Some (s, r') \<Rightarrow>
                 (case skip_ws r' of
                    [] \<Rightarrow> None
                  | x # r'' \<Rightarrow>
                      if x = 0x2C then map_option ((#) s) (parse_elements r'')
                      else if x = 0x5D then (if skip_ws r'' = [] then Some [s] else None)
                      else None)))"
  by pat_completeness auto
termination
proof (relation "measure length")
  show "wf (measure length)" by simp
next
  fix t x21 x22 x2 x y x21a x22a
  assume "skip_ws t = x21 # x22" "parse_chars x22 = Some x2" "(x, y) = x2"
    "skip_ws y = x21a # x22a"
  then have "length x22 < length t" "length y < length x22" "length x22a < length y"
    using skip_ws_shorter parse_chars_shorter by metis+
  then show "(x22a, t) \<in> measure length" by simp
qed

declare parse_elements.simps [simp del]

definition JSON_parse :: "js_string \<Rightarrow> js_string list option" where
  "JSON_parse t =
     (case skip_ws t of
        [] \<Rightarrow> None
      | b # r \<Rightarrow>
          if b \<noteq> 0x5B then None
          else
            (case skip_ws r of
               [] \<Rightarrow> None
             | d # r' \<Rightarrow>
                 if d = 0x5D then (if skip_ws r' = [] then Some [] else None)
                 else parse_elements r))"

subsection \<open>Arrays\<close>

text \<open>\<open>xs[i]\<close>: \<open>undefined\<close> (here \<open>None\<close>) outside the array.\<close>

definition js_index :: "'a list \<Rightarrow> int \<Rightarrow> 'a option" where
  "js_index xs i = (if 0 \<le> i \<and> i < int (length xs) then Some (xs ! nat i) else None)"

text \<open>
  \<open>Array.prototype.slice(start, end)\<close>: a negative bound counts from the end of the
  array, both bounds are clamped to the array, and an empty range gives the empty array.
\<close>

definition js_slice :: "'a list \<Rightarrow> int \<Rightarrow> int \<Rightarrow> 'a list" where
  "js_slice xs start end' =
     (let len = int (length xs);
          k = (if start < 0 then max (len + start) 0 else min start len);
          final = (if end' < 0 then max (len + end') 0 else min end' len)
      in take (nat (final - k)) (drop (nat k) xs))"

text \<open>\<open>Array.prototype.findIndex\<close>: the index of the first element that satisfies the
  predicate, \<open>-1\<close> when there is none.\<close>

fun findIndex_from :: "('a \<Rightarrow> bool) \<Rightarrow> 'a list \<Rightarrow> int \<Rightarrow> int" where
  "findIndex_from p [] k = -1"
| "findIndex_from p (x # xs) k = (if p x then k else findIndex_from p xs (k + 1))"

definition findIndex :: "('a \<Rightarrow> bool) \<Rightarrow> 'a list \<Rightarrow> int" where
  "findIndex p xs = findIndex_from p xs 0"

text \<open>\<open>Array.prototype.every\<close> with a callback that also takes the index.\<close>

definition every_indexed :: "('a \<Rightarrow> int \<Rightarrow> bool) \<Rightarrow> 'a list \<Rightarrow> bool" where
  "every_indexed f xs = list_all (\<lambda>(i, x). f x (int i)) (enumerate 0 xs)"

text \<open>
  \<open>Array.from(new Set(xs))\<close>: a \<open>Set\<close> keeps its elements in insertion order, and adding
  an element it already holds changes nothing.
\<close>

definition Set_add :: "'a list \<Rightarrow> 'a \<Rightarrow> 'a list" where
  "Set_add s x = (if x \<in> set s then s else s @ [x])"

definition Array_from_Set :: "'a list \<Rightarrow> 'a list" where
  "Array_from_Set xs = foldl Set_add [] xs"

text \<open>
  \<open>Array.prototype.sort()\<close> without a comparator, on an array of arrays of strings:
  the elements are ordered by their string conversions (for an array, its elements
  joined by commas), compared as strings, and the sort is stable.
\<close>

definition Array_toString :: "js_string list \<Rightarrow> js_string" where
  "Array_toString xs = Array_join [0x2C] xs"

definition Array_sort :: "js_string list list \<Rightarrow> js_string list list" where
  "Array_sort xss = sort_key Array_toString xss"

text \<open>\<open>xs.map(JSON.parse)\<close>: the first text that does not parse raises.\<close>

definition map_JSON_parse :: "js_string list \<Rightarrow> js_error + js_string list list" where
  "map_JSON_parse ts =
     (case those (map JSON_parse ts) of None \<Rightarrow> Inl SyntaxError | Some vs \<Rightarrow> Inr vs)"

section \<open>The asset catalog table's pagination\<close>

record AssetKey =
  path :: "js_string list"

record Asset =
  asset_id :: js_string
  key :: AssetKey

record Props =
  displayed :: "Asset list"
  displayPathForAsset :: "Asset \<Rightarrow> js_string list"
  prevCursor :: "js_string option"
  nextCursor :: "js_string option"

definition PAGE_SIZE :: int where
  "PAGE_SIZE = 50"

text \<open>
  \<open>cursorValue(xs[i])\<close>: both \<open>cursorValue\<close> closures read a property of, or spread,
  their argument, which raises a \<open>TypeError\<close> on \<open>undefined\<close>.
\<close>

definition cursorValue_at :: "('a \<Rightarrow> js_string) \<Rightarrow> 'a list \<Rightarrow> int \<Rightarrow> js_error + js_string" where
  "cursorValue_at cursorValue xs i =
     (case js_index xs i of None \<Rightarrow> Inl TypeError | Some x \<Rightarrow> Inr (cursorValue x))"

text \<open>\<open>cond ? cursorValue(xs[i]) : undefined\<close>\<close>

definition cursor_if :: "bool \<Rightarrow> js_error + js_string \<Rightarrow> js_error + js_string option" where
  "cursor_if cond v = (if cond then map_sum id Some v else Inr None)"

subsection \<open>\<open>buildFlatProps\<close>\<close>

definition flat_cursorValue :: "js_string list \<Rightarrow> Asset \<Rightarrow> js_string" where
  "flat_cursorValue prefixPath asset = JSON_stringify (prefixPath @ path (key asset))"

text \<open>
  \<open>cursor ? assets.findIndex((ns) => cursor <= cursorValue(ns)) : 0\<close>: the cursor is a
  string or \<open>undefined\<close>, and both \<open>undefined\<close> and the empty string are falsy.
\<close>

definition flat_cursorIndex :: "Asset list \<Rightarrow> js_string list \<Rightarrow> js_string option \<Rightarrow> int" where
  "flat_cursorIndex assets prefixPath cursor =
     (case cursor of
        None \<Rightarrow> 0
      | Some c \<Rightarrow>
          if c = [] then 0
          else findIndex (\<lambda>ns. c \<le> flat_cursorValue prefixPath ns) assets)"

definition buildFlatProps ::
  "Asset list \<Rightarrow> js_string list \<Rightarrow> js_string option \<Rightarrow> js_error + Props" where
  "buildFlatProps assets prefixPath cursor =
     (let cursorIndex = flat_cursorIndex assets prefixPath cursor;
          prevPageIndex = max 0 (cursorIndex - PAGE_SIZE);
          nextPageIndex = cursorIndex + PAGE_SIZE
      in case cursor_if (cursorIndex > 0)
                (cursorValue_at (flat_cursorValue prefixPath) assets prevPageIndex) of
           Inl e \<Rightarrow> Inl e
         | Inr prev \<Rightarrow>
             (case cursor_if (nextPageIndex < int (length assets))
                     (cursorValue_at (flat_cursorValue prefixPath) assets nextPageIndex) of
                Inl e \<Rightarrow> Inl e
              | Inr next \<Rightarrow>
                  Inr \<lparr>displayed = js_slice assets cursorIndex (cursorIndex + PAGE_SIZE),
                       displayPathForAsset = (\<lambda>asset. path (key asset)),
                       prevCursor = prev,
                       nextCursor = next\<rparr>))"

subsection \<open>\<open>buildNamespaceProps\<close>\<close>

definition namespaceForAsset :: "js_string list \<Rightarrow> Asset \<Rightarrow> js_string list" where
  "namespaceForAsset prefixPath asset =
     js_slice (path (key asset)) (int (length prefixPath)) (int (length prefixPath) + 1)"

definition namespaces_of :: "Asset list \<Rightarrow> js_string list \<Rightarrow> js_error + js_string list list" where
  "namespaces_of assets prefixPath =
     (case map_JSON_parse
             (Array_from_Set
                (map (\<lambda>asset. JSON_stringify (namespaceForAsset prefixPath asset)) assets)) of
        Inl e \<Rightarrow> Inl e
      | Inr parsed \<Rightarrow> Inr (Array_sort parsed))"

definition ns_cursorValue :: "js_string list \<Rightarrow> js_string list \<Rightarrow> js_string" where
  "ns_cursorValue prefixPath ns = JSON_stringify (prefixPath @ ns)"

definition ns_cursorIndex :: "js_string list list \<Rightarrow> js_string list \<Rightarrow> js_string option \<Rightarrow> int" where
  "ns_cursorIndex namespaces prefixPath cursor =
     (case cursor of
        None \<Rightarrow> 0
      | Some c \<Rightarrow>
          if c = [] then 0
          else findIndex (\<lambda>ns. c \<le> ns_cursorValue prefixPath ns) namespaces)"

definition filterAssetsByNamespace :: "Asset list \<Rightarrow> js_string list list \<Rightarrow> Asset list" where
  "filterAssetsByNamespace assets paths =
     filter
       (\<lambda>asset.
          list_ex
            (\<lambda>path'. every_indexed (\<lambda>part i. js_index (path (key asset)) i = Some part) path')
            paths)
       assets"

definition buildNamespaceProps ::
  "Asset list \<Rightarrow> js_string list \<Rightarrow> js_string option \<Rightarrow> js_error + Props" where
  "buildNamespaceProps assets prefixPath cursor =
     (case namespaces_of assets prefixPath of
        Inl e \<Rightarrow> Inl e
      | Inr namespaces \<Rightarrow>
          (let cursorIndex = ns_cursorIndex namespaces prefixPath cursor
           in if cursorIndex = -1
              then Inr \<lparr>displayed = [],
                        displayPathForAsset = namespaceForAsset prefixPath,
                        prevCursor = None,
                        nextCursor = None\<rparr>
              else
                (let slice = js_slice namespaces cursorIndex (cursorIndex + PAGE_SIZE);
                     prevPageIndex = max 0 (cursorIndex - PAGE_SIZE)
                 in case cursor_if (cursorIndex \<noteq> 0)
                           (cursorValue_at (ns_cursorValue prefixPath) namespaces prevPageIndex) of
                      Inl e \<Rightarrow> Inl e
                    | Inr prev \<Rightarrow>
                        (let nextPageIndex = cursorIndex + PAGE_SIZE
                         in case cursor_if (int (length namespaces) > nextPageIndex)
                                   (cursorValue_at (ns_cursorValue prefixPath) namespaces
                                      nextPageIndex) of
                              Inl e \<Rightarrow> Inl e
                            | Inr next \<Rightarrow>
                                Inr \<lparr>displayed =
                                       filterAssetsByNamespace assets
                                         (map (\<lambda>ns. prefixPath @ ns) slice),
                                     displayPathForAsset = namespaceForAsset prefixPath,
                                     prevCursor = prev,
                                     nextCursor = next\<rparr>))))"

subsection \<open>The choice of the view\<close>

text \<open>
  \<open>AssetsCatalogTable\<close> builds the flat page when the view is \<open>'flat'\<close> and the
  namespace page otherwise. The component passes the empty prefix path; it is kept as
  a parameter here, as both functions take it.
\<close>

datatype view = Flat | Namespace

definition paginate ::
  "Asset list \<Rightarrow> js_string list \<Rightarrow> js_string option \<Rightarrow> view \<Rightarrow> js_error + Props" where
  "paginate assets prefixPath cursor mode =
     (if mode = Flat then buildFlatProps assets prefixPath cursor
      else buildNamespaceProps assets prefixPath cursor)"

subsection \<open>Concrete assets\<close>

text \<open>An asset with the given key path, written in ASCII; its id is the joined path.\<close>

definition example_asset :: "string list \<Rightarrow> Asset" where
  "example_asset p = \<lparr>asset_id = lit (concat p), key = \<lparr>path = map lit p\<rparr>\<rparr>"


text \<open>An asset with the given id and key path.\<close>

definition asset_with_id :: "string \<Rightarrow> string list \<Rightarrow> Asset" where
  "asset_with_id i p = \<lparr>asset_id = lit i, key = \<lparr>path = map lit p\<rparr>\<rparr>"



section \<open>\<open>JSON.parse\<close> inverts \<open>JSON.stringify\<close>\<close>

lemma nibble_less: "(x :: code_unit) AND 0xF < 16"
proof -
  have "x AND 0xF \<le> 0xF" by (rule word_and_le1)
  then show ?thesis by (simp add: word_le_nat_alt word_less_nat_alt)
qed

lemma unhex_hex_digit: "n < 16 \<Longrightarrow> unhex (hex_digit n) = Some n"
  unfolding unhex_def hex_digit_def
  by (auto simp: word_le_nat_alt word_less_nat_alt unat_word_ariths)

lemma nibbles_reassemble:
  "push_bit 12 (drop_bit 12 c AND 0xF) OR push_bit 8 (drop_bit 8 c AND 0xF)
     OR push_bit 4 (drop_bit 4 c AND 0xF) OR (c AND 0xF) = (c :: code_unit)"
proof -
  have m: "(0xF :: code_unit) = mask 4"
    by (simp add: mask_eq_exp_minus_1)
  show ?thesis
    unfolding m
  proof (rule bit_word_eqI)
    fix n :: nat
    assume "n < LENGTH(16)"
    then have n16: "n < 16" by simp
    consider "n < 4" | "4 \<le> n" "n < 8" | "8 \<le> n" "n < 12" | "12 \<le> n"
      by linarith
    then show "bit (push_bit 12 (drop_bit 12 c AND mask 4) OR push_bit 8 (drop_bit 8 c AND mask 4)
       OR push_bit 4 (drop_bit 4 c AND mask 4) OR (c AND mask 4)) n = bit c n"
      using n16 by cases (auto simp: bit_simps)
  qed
qed

lemma hex4_UnicodeEscape:
  "hex4 (hex_digit (drop_bit 12 c AND 0xF)) (hex_digit (drop_bit 8 c AND 0xF))
        (hex_digit (drop_bit 4 c AND 0xF)) (hex_digit (c AND 0xF)) = Some c"
  unfolding hex4_def
  using nibbles_reassemble [of c]
  by (simp add: unhex_hex_digit nibble_less)

lemma parse_chars_UnicodeEscape:
  "parse_chars (UnicodeEscape c @ t) = map_option (apfst ((#) c)) (parse_chars t)"
  unfolding UnicodeEscape_def by (simp add: hex4_UnicodeEscape)

lemma surrogate_is_plain:
  "is_leading_surrogate c \<or> is_trailing_surrogate c \<Longrightarrow> c \<noteq> 0x22 \<and> c \<noteq> 0x5C \<and> \<not> c < 0x20"
  unfolding is_leading_surrogate_def is_trailing_surrogate_def
  by (auto simp: word_le_nat_alt word_less_nat_alt)

lemma parse_chars_quote_code_point:
  "parse_chars (quote_code_point c @ t) = map_option (apfst ((#) c)) (parse_chars t)"
  unfolding quote_code_point_def
  by (simp add: parse_chars_UnicodeEscape single_escape_def)

lemma parse_chars_quote_code_points:
  "parse_chars (quote_code_points s @ 0x22 # t) = Some (s, t)"
proof (induction s rule: quote_code_points.induct)
  case 1
  then show ?case by simp
next
  case (2 c)
  then show ?case by (simp add: parse_chars_quote_code_point)
next
  case (3 c d cs)
  then show ?case
    using surrogate_is_plain [of c] surrogate_is_plain [of d]
    by (simp add: parse_chars_quote_code_point)
qed

lemma skip_ws_not_ws [simp]: "\<not> is_ws c \<Longrightarrow> skip_ws (c # t) = c # t"
  by (simp add: skip_ws_def)

lemma skip_ws_Nil [simp]: "skip_ws [] = []"
  by (simp add: skip_ws_def)

lemma not_ws_punct [simp]: "\<not> is_ws 0x22" "\<not> is_ws 0x2C" "\<not> is_ws 0x5B" "\<not> is_ws 0x5D"
  by (simp_all add: is_ws_def)

lemma parse_elements_last:
  "parse_elements (QuoteJSONString x @ [0x5D]) = Some [x]"
  by (subst parse_elements.simps)
     (simp add: QuoteJSONString_def parse_chars_quote_code_points)

lemma parse_elements_more:
  "parse_elements (QuoteJSONString x @ 0x2C # t) = map_option ((#) x) (parse_elements t)"
  by (subst parse_elements.simps)
     (simp add: QuoteJSONString_def parse_chars_quote_code_points)

lemma parse_elements_join:
  "parse_elements (Array_join [0x2C] (map QuoteJSONString (x # xs)) @ [0x5D]) = Some (x # xs)"
proof (induction xs arbitrary: x)
  case Nil
  show ?case by (simp add: parse_elements_last)
next
  case (Cons y ys)
  then show ?case by (simp add: parse_elements_more)
qed

lemma JSON_parse_stringify: "JSON_parse (JSON_stringify xs) = Some xs"
proof (cases xs)
  case Nil
  then show ?thesis by (simp add: JSON_parse_def JSON_stringify_def)
next
  case (Cons x ys)
  obtain r where r: "Array_join [0x2C] (map QuoteJSONString (x # ys)) @ [0x5D] = 0x22 # r"
    by (cases ys) (simp_all add: QuoteJSONString_def)
  have "JSON_stringify xs = 0x5B # 0x22 # r"
    using r Cons by (simp add: JSON_stringify_def)
  moreover have "parse_elements (0x22 # r) = Some xs"
    using parse_elements_join [of x ys] r Cons by simp
  ultimately show ?thesis
    by (simp add: JSON_parse_def)
qed

lemma JSON_stringify_inj: "JSON_stringify xs = JSON_stringify ys \<Longrightarrow> xs = ys"
  by (metis JSON_parse_stringify option.inject)

lemma JSON_stringify_not_empty: "JSON_stringify xs \<noteq> []"
  by (simp add: JSON_stringify_def)

section \<open>Facts about the array operations and the page builder\<close>

lemma findIndex_from_cases:
  "findIndex_from p xs k = -1 \<and> (\<forall>x\<in>set xs. \<not> p x)
   \<or> (\<exists>i<length xs. findIndex_from p xs k = k + int i \<and> p (xs ! i) \<and> (\<forall>j<i. \<not> p (xs ! j)))"
proof (induction xs arbitrary: k)
  case Nil
  then show ?case by simp
next
  case (Cons x xs)
  show ?case
  proof (cases "p x")
    case True
    then show ?thesis by auto
  next
    case False
    from Cons.IH [of "k + 1"] show ?thesis
    proof
      assume "findIndex_from p xs (k + 1) = -1 \<and> (\<forall>x\<in>set xs. \<not> p x)"
      with False show ?thesis by simp
    next
      assume "\<exists>i<length xs. findIndex_from p xs (k + 1) = k + 1 + int i \<and> p (xs ! i) \<and> (\<forall>j<i. \<not> p (xs ! j))"
      then obtain i where i: "i < length xs" "findIndex_from p xs (k + 1) = k + 1 + int i"
        "p (xs ! i)" "\<forall>j<i. \<not> p (xs ! j)" by blast
      have "\<forall>j<Suc i. \<not> p ((x # xs) ! j)"
        using False i(4) by (auto simp: nth_Cons split: nat.splits)
      with i False have "Suc i < length (x # xs) \<and> findIndex_from p (x # xs) k = k + int (Suc i)
          \<and> p ((x # xs) ! Suc i) \<and> (\<forall>j<Suc i. \<not> p ((x # xs) ! j))"
        by simp
      then show ?thesis by blast
    qed
  qed
qed

lemma findIndex_cases:
  "findIndex p xs = -1 \<and> (\<forall>x\<in>set xs. \<not> p x)
   \<or> (\<exists>i<length xs. findIndex p xs = int i \<and> p (xs ! i) \<and> (\<forall>j<i. \<not> p (xs ! j)))"
  using findIndex_from_cases [of p xs 0] by (simp add: findIndex_def)

lemma findIndex_notfound: "(\<forall>x\<in>set xs. \<not> p x) \<Longrightarrow> findIndex p xs = -1"
  using findIndex_cases [of p xs] by (metis nth_mem)

lemma findIndex_found:
  assumes "i < length xs" "p (xs ! i)" "\<forall>j<i. \<not> p (xs ! j)"
  shows "findIndex p xs = int i"
proof -
  from findIndex_cases [of p xs] assms(1,2)
  obtain k where k: "k < length xs" "findIndex p xs = int k" "p (xs ! k)" "\<forall>j<k. \<not> p (xs ! j)"
    by (metis nth_mem)
  have "\<not> k < i" using assms(3) k(3) by blast
  moreover have "\<not> i < k" using k(4) assms(2) by blast
  ultimately show ?thesis using k(2) by simp
qed

lemma findIndex_range: "findIndex p xs = -1 \<or> 0 \<le> findIndex p xs \<and> findIndex p xs < int (length xs)"
  using findIndex_cases [of p xs] by auto

lemma js_index_nat [simp]: "i < length xs \<Longrightarrow> js_index xs (int i) = Some (xs ! i)"
  by (simp add: js_index_def)

lemma js_slice_window: "js_slice xs (int i) (int i + int n) = take n (drop i xs)"
proof (cases "i \<le> length xs")
  case True
  then show ?thesis by (simp add: js_slice_def Let_def min_def nat_diff_distrib' nat_add_distrib)
next
  case False
  then show ?thesis by (simp add: js_slice_def Let_def min_def)
qed

lemma js_slice_last:
  "js_slice xs (-1) 49 = (if xs = [] \<or> 50 \<le> length xs then [] else [last xs])"
proof (cases "xs = []")
  case True
  then show ?thesis by (simp add: js_slice_def)
next
  case False
  then have l: "0 < length xs" by simp
  show ?thesis
  proof (cases "50 \<le> length xs")
    case True
    then show ?thesis by (simp add: js_slice_def Let_def min_def max_def)
  next
    case False
    have d: "drop (length xs - 1) xs = [last xs]"
      using \<open>xs \<noteq> []\<close>
      by (metis append_butlast_last_id append_eq_conv_conj length_butlast)
    have k: "nat (int (length xs) - 1) = length xs - 1"
      using l by simp
    have s: "(if (-1::int) < 0 then max (int (length xs) + (-1)) 0 else min (-1) (int (length xs)))
        = int (length xs) - 1"
      using l by simp
    have e: "(if (49::int) < 0 then max (int (length xs) + 49) 0 else min 49 (int (length xs)))
        = int (length xs)"
      using False by simp
    have n: "nat (int (length xs) - (int (length xs) - 1)) = 1"
      by simp
    have "js_slice xs (-1) 49 = take 1 [last xs]"
      unfolding js_slice_def Let_def s e n k d ..
    then show ?thesis using False \<open>xs \<noteq> []\<close> by simp
  qed
qed


lemma cursorValue_at_in_range:
  "0 \<le> k \<Longrightarrow> k < int (length xs) \<Longrightarrow> cursorValue_at cv xs k = Inr (cv (xs ! nat k))"
  by (simp add: cursorValue_at_def js_index_def)

lemma flat_cursorIndex_range:
  "flat_cursorIndex assets pp cursor = -1
   \<or> flat_cursorIndex assets pp cursor = 0
   \<or> 0 < flat_cursorIndex assets pp cursor \<and> flat_cursorIndex assets pp cursor < int (length assets)"
  using findIndex_range [of "\<lambda>ns. the cursor \<le> flat_cursorValue pp ns" assets]
  by (auto simp: flat_cursorIndex_def split: option.splits)

lemma buildFlatProps_at:
  assumes "flat_cursorIndex assets pp cursor = k"
  shows "buildFlatProps assets pp cursor =
     Inr \<lparr>displayed = js_slice assets k (k + 50),
          displayPathForAsset = (\<lambda>asset. path (key asset)),
          prevCursor = (if 0 < k then Some (flat_cursorValue pp (assets ! nat (k - 50))) else None),
          nextCursor = (if k + 50 < int (length assets)
                        then Some (flat_cursorValue pp (assets ! nat (k + 50))) else None)\<rparr>"
proof -
  have r: "k = -1 \<or> k = 0 \<or> 0 < k \<and> k < int (length assets)"
    using flat_cursorIndex_range [of assets pp cursor] assms by simp
  have p: "0 < k \<Longrightarrow> cursorValue_at (flat_cursorValue pp) assets (max 0 (k - 50))
      = Inr (flat_cursorValue pp (assets ! nat (k - 50)))"
    using r by (subst cursorValue_at_in_range) (auto simp: max_def)
  have n: "k + 50 < int (length assets) \<Longrightarrow> cursorValue_at (flat_cursorValue pp) assets (k + 50)
      = Inr (flat_cursorValue pp (assets ! nat (k + 50)))"
    using r by (subst cursorValue_at_in_range) auto
  show ?thesis
    unfolding buildFlatProps_def Let_def assms PAGE_SIZE_def cursor_if_def
    using p n by simp
qed

section \<open>The order of serialized paths\<close>













section \<open>The namespace list\<close>

lemma Set_add_map: "inj f \<Longrightarrow> Set_add (map f s) (f x) = map f (Set_add s x)"
  by (auto simp: Set_add_def inj_def)

lemma foldl_Set_add_map:
  "inj f \<Longrightarrow> foldl Set_add (map f acc) (map f xs) = map f (foldl Set_add acc xs)"
  by (induction xs arbitrary: acc) (simp_all add: Set_add_map)

lemma Array_from_Set_map: "inj f \<Longrightarrow> Array_from_Set (map f xs) = map f (Array_from_Set xs)"
  using foldl_Set_add_map [of f "[]" xs] by (simp add: Array_from_Set_def)

lemma set_foldl_Set_add: "set (foldl Set_add acc xs) = set acc \<union> set xs"
  by (induction xs arbitrary: acc) (auto simp: Set_add_def)

lemma distinct_foldl_Set_add: "distinct acc \<Longrightarrow> distinct (foldl Set_add acc xs)"
  by (induction xs arbitrary: acc) (auto simp: Set_add_def)

lemma length_foldl_Set_add: "length (foldl Set_add acc xs) \<le> length acc + length xs"
proof (induction xs arbitrary: acc)
  case Nil
  then show ?case by simp
next
  case (Cons x xs)
  have "length (Set_add acc x) \<le> Suc (length acc)"
    by (simp add: Set_add_def)
  with Cons [of "Set_add acc x"] show ?case by simp
qed

lemma set_Array_from_Set [simp]: "set (Array_from_Set xs) = set xs"
  by (simp add: Array_from_Set_def set_foldl_Set_add)

lemma distinct_Array_from_Set [simp]: "distinct (Array_from_Set xs)"
  by (simp add: Array_from_Set_def distinct_foldl_Set_add)

lemma length_Array_from_Set: "length (Array_from_Set xs) \<le> length xs"
  using length_foldl_Set_add [of "[]" xs] by (simp add: Array_from_Set_def)

lemma those_parse_stringify: "those (map JSON_parse (map JSON_stringify ys)) = Some ys"
  by (induction ys) (simp_all add: JSON_parse_stringify)

lemma inj_JSON_stringify: "inj JSON_stringify"
  by (rule injI) (rule JSON_stringify_inj)

text \<open>The namespace list of the code, without the detour through JSON texts.\<close>

lemma namespaces_of_eq:
  "namespaces_of assets pp =
     Inr (Array_sort (Array_from_Set (map (namespaceForAsset pp) assets)))"
proof -
  have "map (\<lambda>asset. JSON_stringify (namespaceForAsset pp asset)) assets
      = map JSON_stringify (map (namespaceForAsset pp) assets)"
    by simp
  then show ?thesis
    unfolding namespaces_of_def map_JSON_parse_def
    by (simp only: Array_from_Set_map [OF inj_JSON_stringify] those_parse_stringify
          option.case sum.case)
qed

lemma set_Array_sort [simp]: "set (Array_sort xs) = set xs"
  by (simp add: Array_sort_def)

lemma length_Array_sort [simp]: "length (Array_sort xs) = length xs"
  by (simp add: Array_sort_def)

lemma namespaces_of_set:
  "namespaces_of assets pp = Inr nss \<Longrightarrow> set nss = namespaceForAsset pp ` set assets"
  by (auto simp: namespaces_of_eq)

lemma namespaces_of_length:
  "namespaces_of assets pp = Inr nss \<Longrightarrow> length nss \<le> length assets"
  using length_Array_from_Set [of "map (namespaceForAsset pp) assets"]
  by (auto simp: namespaces_of_eq)

lemma ns_cursorIndex_range:
  "ns_cursorIndex nss pp cursor = -1
   \<or> ns_cursorIndex nss pp cursor = 0
   \<or> 0 < ns_cursorIndex nss pp cursor \<and> ns_cursorIndex nss pp cursor < int (length nss)"
  using findIndex_range [of "\<lambda>ns. the cursor \<le> ns_cursorValue pp ns" nss]
  by (auto simp: ns_cursorIndex_def split: option.splits)

lemma buildNamespaceProps_at:
  assumes "namespaces_of assets pp = Inr nss" and "ns_cursorIndex nss pp cursor = k"
  shows "buildNamespaceProps assets pp cursor =
     (if k = -1
      then Inr \<lparr>displayed = [], displayPathForAsset = namespaceForAsset pp,
                prevCursor = None, nextCursor = None\<rparr>
      else Inr \<lparr>displayed =
                  filterAssetsByNamespace assets (map (\<lambda>ns. pp @ ns) (js_slice nss k (k + 50))),
                displayPathForAsset = namespaceForAsset pp,
                prevCursor = (if k \<noteq> 0 then Some (ns_cursorValue pp (nss ! nat (k - 50))) else None),
                nextCursor = (if k + 50 < int (length nss)
                              then Some (ns_cursorValue pp (nss ! nat (k + 50))) else None)\<rparr>)"
proof -
  have r: "k = -1 \<or> k = 0 \<or> 0 < k \<and> k < int (length nss)"
    using ns_cursorIndex_range [of nss pp cursor] assms(2) by simp
  have p: "0 < k \<Longrightarrow> cursorValue_at (ns_cursorValue pp) nss (max 0 (k - 50))
      = Inr (ns_cursorValue pp (nss ! nat (k - 50)))"
    using r by (subst cursorValue_at_in_range) (auto simp: max_def)
  have n: "k + 50 < int (length nss) \<Longrightarrow> k \<noteq> -1 \<Longrightarrow> cursorValue_at (ns_cursorValue pp) nss (k + 50)
      = Inr (ns_cursorValue pp (nss ! nat (k + 50)))"
    using r by (subst cursorValue_at_in_range) auto
  show ?thesis
    unfolding buildNamespaceProps_def assms(1) sum.case Let_def assms(2) PAGE_SIZE_def cursor_if_def
    using p n r by auto
qed

lemma every_indexed_agrees:
  "every_indexed (\<lambda>part i. js_index q i = Some part) p
     \<longleftrightarrow> (\<forall>i<length p. i < length q \<and> q ! i = p ! i)"
proof
  assume a: "every_indexed (\<lambda>part i. js_index q i = Some part) p"
  show "\<forall>i<length p. i < length q \<and> q ! i = p ! i"
  proof (intro allI impI)
    fix i
    assume "i < length p"
    then have "(i, p ! i) \<in> set (enumerate 0 p)"
      by (simp add: in_set_enumerate_eq)
    with a have "js_index q (int i) = Some (p ! i)"
      unfolding every_indexed_def list_all_iff by fastforce
    then show "i < length q \<and> q ! i = p ! i"
      by (simp add: js_index_def split: if_splits)
  qed
next
  assume a: "\<forall>i<length p. i < length q \<and> q ! i = p ! i"
  show "every_indexed (\<lambda>part i. js_index q i = Some part) p"
    unfolding every_indexed_def list_all_iff
  proof
    fix x
    assume "x \<in> set (enumerate 0 p)"
    then have "fst x < length p" "snd x = p ! fst x"
      by (simp_all add: in_set_enumerate_eq)
    with a show "case x of (i, x) \<Rightarrow> js_index q (int i) = Some x"
      by (cases x) (simp add: js_index_def)
  qed
qed

lemma filterAssetsByNamespace_eq:
  "filterAssetsByNamespace assets paths =
     filter (\<lambda>a. \<exists>p\<in>set paths. \<forall>i<length p. i < length (path (key a)) \<and> path (key a) ! i = p ! i)
       assets"
  unfolding filterAssetsByNamespace_def list_ex_iff every_indexed_agrees ..

section \<open>The namespace page\<close>


lemma Array_toString_single [simp]: "Array_toString [s] = s"
  by (simp add: Array_toString_def)






text \<open>
  C3. In the namespace page, when a cursor is supplied and no namespace of the assets has
  a cursor value at or above it (the search gives \<open>-1\<close>), the call returns normally, with
  an empty page and neither a previous nor a next cursor.
\<close>

theorem namespace_cursor_past_end:
  assumes "cursor = Some c"
    and "\<forall>a\<in>set assets. \<not> c \<le> ns_cursorValue prefixPath (namespaceForAsset prefixPath a)"
  shows "buildNamespaceProps assets prefixPath cursor =
     Inr \<lparr>displayed = [], displayPathForAsset = namespaceForAsset prefixPath,
          prevCursor = None, nextCursor = None\<rparr>"
proof -
  obtain nss where nss: "namespaces_of assets prefixPath = Inr nss"
    by (simp add: namespaces_of_eq)
  have none: "\<forall>ns\<in>set nss. \<not> c \<le> ns_cursorValue prefixPath ns"
    using assms(2) namespaces_of_set [OF nss] by auto
  show ?thesis
  proof (cases "c = []")
    case True
    with assms(2) have "assets = []" by (cases assets) auto
    with nss have e: "nss = []" using namespaces_of_length [OF nss] by simp
    have "ns_cursorIndex nss prefixPath cursor = 0"
      using True assms(1) by (simp add: ns_cursorIndex_def)
    from buildNamespaceProps_at [OF nss this] e \<open>assets = []\<close> show ?thesis
      by (simp add: filterAssetsByNamespace_def)
  next
    case False
    then have "ns_cursorIndex nss prefixPath cursor = -1"
      using assms(1) none by (simp add: ns_cursorIndex_def findIndex_notfound)
    from buildNamespaceProps_at [OF nss this] show ?thesis by simp
  qed
qed

theorem namespace_cursor_past_end_witness:
  "list_all (\<lambda>a. \<not> lit ''[\"z\"]'' \<le> ns_cursorValue [] (namespaceForAsset [] a))
     [example_asset [''x'', ''1''], example_asset [''x'', ''2''], example_asset [''y'', ''1'']]
   \<and> buildNamespaceProps
       [example_asset [''x'', ''1''], example_asset [''x'', ''2''], example_asset [''y'', ''1'']]
       [] (Some (lit ''[\"z\"]'')) =
     Inr \<lparr>displayed = [], displayPathForAsset = namespaceForAsset [],
          prevCursor = None, nextCursor = None\<rparr>"
proof -
  let ?A = "[example_asset [''x'', ''1''], example_asset [''x'', ''2''], example_asset [''y'', ''1'']]"
  have h: "list_all (\<lambda>a. \<not> lit ''[\"z\"]'' \<le> ns_cursorValue [] (namespaceForAsset [] a)) ?A"
    by code_simp
  then have "\<forall>a\<in>set ?A. \<not> lit ''[\"z\"]'' \<le> ns_cursorValue [] (namespaceForAsset [] a)"
    unfolding list_all_iff .
  from namespace_cursor_past_end [OF refl this] h show ?thesis by simp
qed

text \<open>
  C2. In the namespace page, the displayed list is the asset list filtered, in its order,
  to the assets whose key path agrees with \<open>prefixPath @ ns\<close> at every position below the
  length of that extended prefix, for at least one namespace \<open>ns\<close> of the selected
  window. The window is the slice of 50 namespaces from the cursor index, and it is
  empty when the search gives \<open>-1\<close>.
\<close>

theorem namespace_displayed:
  assumes "namespaces_of assets prefixPath = Inr namespaces"
    and "ns_cursorIndex namespaces prefixPath cursor = k"
    and "window = (if k = -1 then [] else take 50 (drop (nat k) namespaces))"
  shows "\<exists>r. buildNamespaceProps assets prefixPath cursor = Inr r
     \<and> displayed r =
         filter
           (\<lambda>a. \<exists>ns\<in>set window.
                  \<forall>i<length (prefixPath @ ns).
                     i < length (path (key a)) \<and> path (key a) ! i = (prefixPath @ ns) ! i)
           assets"
proof (cases "k = -1")
  case True
  with buildNamespaceProps_at [OF assms(1,2)] assms(3) show ?thesis by simp
next
  case False
  then have "0 \<le> k"
    using ns_cursorIndex_range [of namespaces prefixPath cursor] assms(2) by auto
  then have "js_slice namespaces k (k + 50) = take 50 (drop (nat k) namespaces)"
    using js_slice_window [of namespaces "nat k" 50] by simp
  with buildNamespaceProps_at [OF assms(1,2)] False assms(3) show ?thesis
    by (simp add: filterAssetsByNamespace_eq)
qed

theorem namespace_displayed_witness:
  "namespaces_of
       [example_asset [''x'', ''1''], example_asset [''x'', ''2''], example_asset [''y'', ''1'']] []
     = Inr [[lit ''x''], [lit ''y'']]
   \<and> ns_cursorIndex [[lit ''x''], [lit ''y'']] [] (Some (lit ''[\"y\"]'')) = 1
   \<and> (\<exists>r. buildNamespaceProps
         [example_asset [''x'', ''1''], example_asset [''x'', ''2''], example_asset [''y'', ''1'']]
         [] (Some (lit ''[\"y\"]'')) = Inr r
       \<and> displayed r =
           filter
             (\<lambda>a. \<exists>ns\<in>set (take 50 (drop (nat 1) [[lit ''x''], [lit ''y'']])).
                    \<forall>i<length ([] @ ns).
                       i < length (path (key a)) \<and> path (key a) ! i = ([] @ ns) ! i)
             [example_asset [''x'', ''1''], example_asset [''x'', ''2''],
              example_asset [''y'', ''1'']])
   \<and> map_sum id displayed
        (buildNamespaceProps
           [example_asset [''x'', ''1''], example_asset [''x'', ''2''], example_asset [''y'', ''1'']]
           [] (Some (lit ''[\"y\"]'')))
      = Inr [example_asset [''y'', ''1'']]"
proof -
  let ?A = "[example_asset [''x'', ''1''], example_asset [''x'', ''2''], example_asset [''y'', ''1'']]"
  have h1: "namespaces_of ?A [] = Inr [[lit ''x''], [lit ''y'']]"
    by code_simp
  have h2: "ns_cursorIndex [[lit ''x''], [lit ''y'']] [] (Some (lit ''[\"y\"]'')) = 1"
    by code_simp
  have h3: "map_sum id displayed (buildNamespaceProps ?A [] (Some (lit ''[\"y\"]'')))
      = Inr [example_asset [''y'', ''1'']]"
    by code_simp
  from namespace_displayed [OF h1 h2 refl] h1 h2 h3 show ?thesis by simp
qed

section \<open>The flat page\<close>

text \<open>
  C1. The contract of the flat page, for every asset list, prefix path and cursor.
  Without a cursor the page starts at index 0. With a cursor \<open>c\<close>, the page starts at
  the first index \<open>i\<close> whose cursor value is at least \<open>c\<close>: the page is
  \<open>assets[i : i + 50]\<close>, the previous cursor is defined exactly when \<open>0 < i\<close> and is
  then the cursor value of \<open>assets[max(0, i - 50)]\<close> (the subtraction on \<open>nat\<close> stops at
  0), and the next cursor is defined exactly when \<open>i + 50 < length assets\<close> and is then
  the cursor value of \<open>assets[i + 50]\<close>. When no asset has a cursor value of at least
  \<open>c\<close> the search gives \<open>-1\<close> and the same formulas are read at start index \<open>-1\<close>:
  the page is \<open>assets.slice(-1, 49)\<close>, there is no previous cursor, and the next cursor
  is defined exactly when \<open>49 < length assets\<close>. The call never raises.
\<close>

theorem flat_contract:
  "(cursor = None \<longrightarrow>
      buildFlatProps assets prefixPath cursor =
        Inr \<lparr>displayed = take 50 assets,
             displayPathForAsset = (\<lambda>asset. path (key asset)),
             prevCursor = None,
             nextCursor = (if 50 < length assets
                           then Some (flat_cursorValue prefixPath (assets ! 50)) else None)\<rparr>)
   \<and> (\<forall>c i. cursor = Some c \<and> i < length assets
          \<and> c \<le> flat_cursorValue prefixPath (assets ! i)
          \<and> (\<forall>j<i. \<not> c \<le> flat_cursorValue prefixPath (assets ! j)) \<longrightarrow>
      buildFlatProps assets prefixPath cursor =
        Inr \<lparr>displayed = take 50 (drop i assets),
             displayPathForAsset = (\<lambda>asset. path (key asset)),
             prevCursor = (if 0 < i
                           then Some (flat_cursorValue prefixPath (assets ! (i - 50))) else None),
             nextCursor = (if i + 50 < length assets
                           then Some (flat_cursorValue prefixPath (assets ! (i + 50))) else None)\<rparr>)
   \<and> (\<forall>c. cursor = Some c
          \<and> (\<forall>a\<in>set assets. \<not> c \<le> flat_cursorValue prefixPath a) \<longrightarrow>
      buildFlatProps assets prefixPath cursor =
        Inr \<lparr>displayed = js_slice assets (-1) 49,
             displayPathForAsset = (\<lambda>asset. path (key asset)),
             prevCursor = None,
             nextCursor = (if 49 < length assets
                           then Some (flat_cursorValue prefixPath (assets ! 49)) else None)\<rparr>)"
proof (intro conjI allI impI)
  assume "cursor = None"
  then have "flat_cursorIndex assets prefixPath cursor = 0"
    by (simp add: flat_cursorIndex_def)
  from buildFlatProps_at [OF this] js_slice_window [of assets 0 50]
  show "buildFlatProps assets prefixPath cursor =
        Inr \<lparr>displayed = take 50 assets,
             displayPathForAsset = (\<lambda>asset. path (key asset)),
             prevCursor = None,
             nextCursor = (if 50 < length assets
                           then Some (flat_cursorValue prefixPath (assets ! 50)) else None)\<rparr>"
    by simp
next
  fix c i
  assume a: "cursor = Some c \<and> i < length assets
          \<and> c \<le> flat_cursorValue prefixPath (assets ! i)
          \<and> (\<forall>j<i. \<not> c \<le> flat_cursorValue prefixPath (assets ! j))"
  have "flat_cursorIndex assets prefixPath cursor = int i"
  proof (cases "c = []")
    case True
    with a have "i = 0" by (cases i) auto
    with True a show ?thesis by (simp add: flat_cursorIndex_def)
  next
    case False
    with a show ?thesis
      by (simp add: flat_cursorIndex_def findIndex_found)
  qed
  from buildFlatProps_at [OF this] js_slice_window [of assets i 50]
  show "buildFlatProps assets prefixPath cursor =
        Inr \<lparr>displayed = take 50 (drop i assets),
             displayPathForAsset = (\<lambda>asset. path (key asset)),
             prevCursor = (if 0 < i
                           then Some (flat_cursorValue prefixPath (assets ! (i - 50))) else None),
             nextCursor = (if i + 50 < length assets
                           then Some (flat_cursorValue prefixPath (assets ! (i + 50))) else None)\<rparr>"
    by (simp add: nat_diff_distrib' nat_add_distrib)
next
  fix c
  assume a: "cursor = Some c
          \<and> (\<forall>a\<in>set assets. \<not> c \<le> flat_cursorValue prefixPath a)"
  show "buildFlatProps assets prefixPath cursor =
        Inr \<lparr>displayed = js_slice assets (-1) 49,
             displayPathForAsset = (\<lambda>asset. path (key asset)),
             prevCursor = None,
             nextCursor = (if 49 < length assets
                           then Some (flat_cursorValue prefixPath (assets ! 49)) else None)\<rparr>"
  proof (cases "c = []")
    case True
    with a have e: "assets = []" by (cases assets) auto
    from True a have "flat_cursorIndex assets prefixPath cursor = 0"
      by (simp add: flat_cursorIndex_def)
    from buildFlatProps_at [OF this] e show ?thesis
      by (simp add: js_slice_def)
  next
    case False
    with a have "flat_cursorIndex assets prefixPath cursor = -1"
      by (simp add: flat_cursorIndex_def findIndex_notfound)
    from buildFlatProps_at [OF this] show ?thesis
      by simp
  qed
qed


theorem flat_contract_witness:
  "buildFlatProps [example_asset [''a''], example_asset [''b''], example_asset [''c'']] [] None =
     Inr \<lparr>displayed = take 50 [example_asset [''a''], example_asset [''b''], example_asset [''c'']],
          displayPathForAsset = (\<lambda>asset. path (key asset)),
          prevCursor = None,
          nextCursor = None\<rparr>
   \<and> lit ''[\"b\"]'' \<le> flat_cursorValue [] (example_asset [''b''])
   \<and> \<not> lit ''[\"b\"]'' \<le> flat_cursorValue [] (example_asset [''a''])
   \<and> buildFlatProps [example_asset [''a''], example_asset [''b''], example_asset [''c'']] []
         (Some (lit ''[\"b\"]'')) =
     Inr \<lparr>displayed = [example_asset [''b''], example_asset [''c'']],
          displayPathForAsset = (\<lambda>asset. path (key asset)),
          prevCursor = Some (flat_cursorValue [] (example_asset [''a''])),
          nextCursor = None\<rparr>
   \<and> list_all (\<lambda>a. \<not> lit ''[\"z\"]'' \<le> flat_cursorValue [] a)
         [example_asset [''a''], example_asset [''b''], example_asset [''c'']]
   \<and> buildFlatProps [example_asset [''a''], example_asset [''b''], example_asset [''c'']] []
         (Some (lit ''[\"z\"]'')) =
     Inr \<lparr>displayed = [example_asset [''c'']],
          displayPathForAsset = (\<lambda>asset. path (key asset)),
          prevCursor = None,
          nextCursor = None\<rparr>"
proof -
  let ?A = "[example_asset [''a''], example_asset [''b''], example_asset [''c'']]"
  have h1: "lit ''[\"b\"]'' \<le> flat_cursorValue [] (example_asset [''b''])"
    by code_simp
  have h2: "\<not> lit ''[\"b\"]'' \<le> flat_cursorValue [] (example_asset [''a''])"
    by code_simp
  have h3: "list_all (\<lambda>a. \<not> lit ''[\"z\"]'' \<le> flat_cursorValue [] a) ?A"
    by code_simp
  have c1: "buildFlatProps ?A [] None =
     Inr \<lparr>displayed = take 50 ?A,
          displayPathForAsset = (\<lambda>asset. path (key asset)),
          prevCursor = None,
          nextCursor = None\<rparr>"
    using flat_contract [of None ?A "[]"] by simp
  have c2: "buildFlatProps ?A [] (Some (lit ''[\"b\"]'')) =
     Inr \<lparr>displayed = [example_asset [''b''], example_asset [''c'']],
          displayPathForAsset = (\<lambda>asset. path (key asset)),
          prevCursor = Some (flat_cursorValue [] (example_asset [''a''])),
          nextCursor = None\<rparr>"
    using flat_contract [of "Some (lit ''[\"b\"]'')" ?A "[]", THEN conjunct2, THEN conjunct1,
        rule_format, of "lit ''[\"b\"]''" 1] h1 h2
    by simp
  have c3: "buildFlatProps ?A [] (Some (lit ''[\"z\"]'')) =
     Inr \<lparr>displayed = [example_asset [''c'']],
          displayPathForAsset = (\<lambda>asset. path (key asset)),
          prevCursor = None,
          nextCursor = None\<rparr>"
    using flat_contract [of "Some (lit ''[\"z\"]'')" ?A "[]", THEN conjunct2, THEN conjunct2,
        rule_format, of "lit ''[\"z\"]''"] h3
    by (simp add: js_slice_last)
  from h1 h2 h3 c1 c2 c3 show ?thesis by simp
qed

text \<open>
  C9. In the flat page, when the collection is not empty and the supplied cursor is
  strictly greater than the cursor value of every asset (the search gives \<open>-1\<close>), the
  page is \<open>assets.slice(-1, 49)\<close>: the last asset alone when there are at most 49
  assets and nothing when there are 50 or more; there is no previous cursor; the next
  cursor is defined exactly when there are at least 50 assets and is then the cursor
  value of \<open>assets[49]\<close>. So the result is never the empty page without cursors that
  the namespace page returns in this situation.
\<close>

theorem flat_cursor_past_end:
  assumes "cursor = Some c"
    and "assets \<noteq> []"
    and "\<forall>a\<in>set assets. flat_cursorValue prefixPath a < c"
  shows "\<exists>r. buildFlatProps assets prefixPath cursor = Inr r
     \<and> displayed r = js_slice assets (-1) 49
     \<and> displayed r = (if length assets \<le> 49 then [last assets] else [])
     \<and> prevCursor r = None
     \<and> nextCursor r = (if 50 \<le> length assets
                        then Some (flat_cursorValue prefixPath (assets ! 49)) else None)
     \<and> \<not> (displayed r = [] \<and> prevCursor r = None \<and> nextCursor r = None)"
proof -
  from assms(2,3) have "c \<noteq> []" by (cases assets) auto
  moreover have "\<forall>a\<in>set assets. \<not> c \<le> flat_cursorValue prefixPath a"
    using assms(3) by auto
  ultimately have "flat_cursorIndex assets prefixPath cursor = -1"
    using assms(1) by (simp add: flat_cursorIndex_def findIndex_notfound)
  from buildFlatProps_at [OF this] assms(2) show ?thesis
    by (auto simp: js_slice_last)
qed

theorem flat_cursor_past_end_witness:
  "[example_asset [''a''], example_asset [''b''], example_asset [''c'']] \<noteq> []
   \<and> list_all (\<lambda>a. flat_cursorValue [] a < lit ''[\"z\"]'')
        [example_asset [''a''], example_asset [''b''], example_asset [''c'']]
   \<and> (\<exists>r. buildFlatProps [example_asset [''a''], example_asset [''b''], example_asset [''c'']] []
            (Some (lit ''[\"z\"]'')) = Inr r
       \<and> displayed r = [example_asset [''c'']]
       \<and> prevCursor r = None \<and> nextCursor r = None)"
proof -
  let ?A = "[example_asset [''a''], example_asset [''b''], example_asset [''c'']]"
  have h: "list_all (\<lambda>a. flat_cursorValue [] a < lit ''[\"z\"]'') ?A"
    by code_simp
  then have "\<forall>a\<in>set ?A. flat_cursorValue [] a < lit ''[\"z\"]''"
    unfolding list_all_iff .
  from flat_cursor_past_end [OF refl _ this] h show ?thesis by auto
qed

text \<open>
  On the empty collection every cursor is past the end, and there the flat page is the
  empty page without cursors: no last asset is shown.
\<close>

theorem flat_cursor_past_end_counterexample:
  "length ([] :: Asset list) \<le> 49
   \<and> buildFlatProps [] [] (Some (lit ''x'')) =
       Inr \<lparr>displayed = [], displayPathForAsset = (\<lambda>asset. path (key asset)),
            prevCursor = None, nextCursor = None\<rparr>"
  by (simp add: buildFlatProps_def flat_cursorIndex_def findIndex_def lit_def PAGE_SIZE_def
      cursor_if_def js_slice_def)

lemma flat_cursorValue_inj:
  "flat_cursorValue pp a = flat_cursorValue pp b \<Longrightarrow> path (key a) = path (key b)"
  unfolding flat_cursorValue_def by (drule JSON_stringify_inj) simp

lemma flat_cursorValue_not_empty: "flat_cursorValue pp a \<noteq> []"
  by (simp add: flat_cursorValue_def JSON_stringify_not_empty)

text \<open>
  C8. For every asset collection sorted by cursor value and every index \<open>i\<close> of it, the
  flat page for the cursor \<open>cursorValue(assets[i])\<close> is not empty and its first element
  is the first asset of the collection that has the key path of \<open>assets[i]\<close>. It is
  \<open>assets[i]\<close> itself whenever every earlier asset with that key path equals
  \<open>assets[i]\<close>, in particular when key paths are unique.
\<close>

theorem flat_cursor_at_asset:
  assumes "sorted (map (flat_cursorValue prefixPath) assets)"
    and "i < length assets"
  shows "\<exists>r j. buildFlatProps assets prefixPath (Some (flat_cursorValue prefixPath (assets ! i))) = Inr r
     \<and> displayed r \<noteq> []
     \<and> j \<le> i
     \<and> displayed r ! 0 = assets ! j
     \<and> path (key (assets ! j)) = path (key (assets ! i))
     \<and> (\<forall>k<j. path (key (assets ! k)) \<noteq> path (key (assets ! i)))
     \<and> ((\<forall>k<i. path (key (assets ! k)) = path (key (assets ! i)) \<longrightarrow> assets ! k = assets ! i)
          \<longrightarrow> displayed r ! 0 = assets ! i)"
proof -
  let ?cv = "flat_cursorValue prefixPath"
  let ?c = "?cv (assets ! i)"
  have "\<not> (\<forall>x\<in>set assets. \<not> ?c \<le> ?cv x)"
    using assms(2) nth_mem by blast
  with findIndex_cases [of "\<lambda>ns. ?c \<le> ?cv ns" assets]
  obtain j where j: "j < length assets" "findIndex (\<lambda>ns. ?c \<le> ?cv ns) assets = int j"
      "?c \<le> ?cv (assets ! j)" "\<forall>k<j. \<not> ?c \<le> ?cv (assets ! k)"
    by blast
  have ji: "j \<le> i" using j(4) by (meson not_le order_refl)
  then have "?cv (assets ! j) \<le> ?c"
    using assms by (simp add: sorted_iff_nth_mono)
  with j(3) have "?cv (assets ! j) = ?c" by simp
  then have same: "path (key (assets ! j)) = path (key (assets ! i))"
    by (rule flat_cursorValue_inj)
  have first: "\<forall>k<j. path (key (assets ! k)) \<noteq> path (key (assets ! i))"
  proof (intro allI impI notI)
    fix k
    assume "k < j" "path (key (assets ! k)) = path (key (assets ! i))"
    then have "?c \<le> ?cv (assets ! k)" by (simp add: flat_cursorValue_def)
    with j(4) \<open>k < j\<close> show False by blast
  qed
  have unique: "assets ! j = assets ! i"
    if "\<forall>k<i. path (key (assets ! k)) = path (key (assets ! i)) \<longrightarrow> assets ! k = assets ! i"
    using that same ji by (cases "j = i") auto
  have "flat_cursorIndex assets prefixPath (Some ?c) = int j"
    using j(2) by (simp add: flat_cursorIndex_def flat_cursorValue_not_empty)
  from buildFlatProps_at [OF this] js_slice_window [of assets j 50] j(1)
  have "\<exists>r. buildFlatProps assets prefixPath (Some ?c) = Inr r
      \<and> displayed r \<noteq> [] \<and> displayed r ! 0 = assets ! j"
    by (simp add: hd_drop_conv_nth nth_via_drop)
  with ji same first unique show ?thesis by metis
qed

theorem flat_cursor_at_asset_witness:
  "sorted (map (flat_cursorValue [])
       [example_asset [''a''], example_asset [''b''], example_asset [''c'']])
   \<and> path (key (example_asset [''a''])) \<noteq> path (key (example_asset [''b'']))
   \<and> (\<exists>r. buildFlatProps [example_asset [''a''], example_asset [''b''], example_asset [''c'']] []
            (Some (flat_cursorValue [] (example_asset [''b'']))) = Inr r
       \<and> displayed r \<noteq> [] \<and> displayed r ! 0 = example_asset [''b''])"
proof -
  let ?A = "[example_asset [''a''], example_asset [''b''], example_asset [''c'']]"
  have h1: "sorted (map (flat_cursorValue []) ?A)"
    by code_simp
  have h2: "path (key (example_asset [''a''])) \<noteq> path (key (example_asset [''b'']))"
    by code_simp
  have h3: "(1 :: nat) < length ?A"
    by simp
  from flat_cursor_at_asset [OF h1 h3] h2
  have "\<exists>r. buildFlatProps ?A [] (Some (flat_cursorValue [] (example_asset [''b'']))) = Inr r
       \<and> displayed r \<noteq> [] \<and> displayed r ! 0 = example_asset [''b'']"
    by auto
  with h1 h2 show ?thesis by (intro conjI)
qed

text \<open>
  When a different asset with the same key path comes first, the page starts with that
  one: the collection below is sorted, and for the cursor of its second asset the page
  starts with its first asset.
\<close>

theorem flat_cursor_at_asset_counterexample:
  "sorted (map (flat_cursorValue [])
       [asset_with_id ''first'' [''a''], asset_with_id ''second'' [''a''],
        asset_with_id ''third'' [''b'']])
   \<and> map_sum id (\<lambda>r. displayed r ! 0)
        (paginate
           [asset_with_id ''first'' [''a''], asset_with_id ''second'' [''a''],
            asset_with_id ''third'' [''b'']]
           [] (Some (flat_cursorValue [] (asset_with_id ''second'' [''a'']))) Flat)
      = Inr (asset_with_id ''first'' [''a''])
   \<and> asset_with_id ''first'' [''a''] \<noteq> asset_with_id ''second'' [''a'']"
  by code_simp

section \<open>Both views\<close>













text \<open>
  C6. For an asset collection of at most 50 assets: in the flat page the next cursor is
  undefined whenever the search does not give \<open>-1\<close> (and always when there are at most
  49 assets), and the previous cursor is undefined exactly when the cursor index is not
  positive; in the namespace page the next cursor is undefined, and the previous cursor
  is undefined exactly when the cursor index is not positive. Without a cursor both
  are undefined in both views.
\<close>

theorem small_collection_cursors:
  assumes "length assets \<le> 50"
  shows "(\<exists>r. buildFlatProps assets prefixPath cursor = Inr r
          \<and> (flat_cursorIndex assets prefixPath cursor \<noteq> -1 \<longrightarrow> nextCursor r = None)
          \<and> (length assets \<le> 49 \<longrightarrow> nextCursor r = None)
          \<and> (prevCursor r = None \<longleftrightarrow> flat_cursorIndex assets prefixPath cursor \<le> 0))
     \<and> (\<exists>namespaces r. namespaces_of assets prefixPath = Inr namespaces
          \<and> buildNamespaceProps assets prefixPath cursor = Inr r
          \<and> nextCursor r = None
          \<and> (prevCursor r = None \<longleftrightarrow> ns_cursorIndex namespaces prefixPath cursor \<le> 0))
     \<and> (cursor = None \<longrightarrow>
          (\<forall>mode. \<exists>r. paginate assets prefixPath cursor mode = Inr r
             \<and> prevCursor r = None \<and> nextCursor r = None))"
proof -
  define k where "k = flat_cursorIndex assets prefixPath cursor"
  have rk: "k = -1 \<or> k = 0 \<or> 0 < k \<and> k < int (length assets)"
    using flat_cursorIndex_range [of assets prefixPath cursor] by (simp add: k_def)
  have flat: "\<exists>r. buildFlatProps assets prefixPath cursor = Inr r
          \<and> (k \<noteq> -1 \<longrightarrow> nextCursor r = None)
          \<and> (length assets \<le> 49 \<longrightarrow> nextCursor r = None)
          \<and> (prevCursor r = None \<longleftrightarrow> k \<le> 0)"
    using buildFlatProps_at [of assets prefixPath cursor k] rk assms
    by (auto simp: k_def)
  obtain nss where nss: "namespaces_of assets prefixPath = Inr nss"
    by (simp add: namespaces_of_eq)
  define m where "m = ns_cursorIndex nss prefixPath cursor"
  have rm: "m = -1 \<or> m = 0 \<or> 0 < m \<and> m < int (length nss)"
    using ns_cursorIndex_range [of nss prefixPath cursor] by (simp add: m_def)
  have len: "length nss \<le> 50"
    using namespaces_of_length [OF nss] assms by simp
  have ns: "\<exists>r. buildNamespaceProps assets prefixPath cursor = Inr r
          \<and> nextCursor r = None
          \<and> (prevCursor r = None \<longleftrightarrow> m \<le> 0)"
    using buildNamespaceProps_at [OF nss, of cursor m] rm len
    by (auto simp: m_def)
  have none: "cursor = None \<Longrightarrow> k = 0 \<and> m = 0"
    by (simp add: k_def m_def flat_cursorIndex_def ns_cursorIndex_def)
  have both: "cursor = None \<longrightarrow>
          (\<forall>mode. \<exists>r. paginate assets prefixPath cursor mode = Inr r
             \<and> prevCursor r = None \<and> nextCursor r = None)"
    using flat ns none by (auto simp: paginate_def)
  from ns nss have ns': "\<exists>namespaces r. namespaces_of assets prefixPath = Inr namespaces
          \<and> buildNamespaceProps assets prefixPath cursor = Inr r
          \<and> nextCursor r = None
          \<and> (prevCursor r = None \<longleftrightarrow> ns_cursorIndex namespaces prefixPath cursor \<le> 0)"
    unfolding m_def by (intro exI [of _ nss]) simp
  from flat ns' both show ?thesis
    unfolding k_def by (intro conjI)
qed

theorem small_collection_cursors_witness:
  "length [example_asset [''a''], example_asset [''b'']] \<le> 50
   \<and> (\<forall>mode. \<exists>r. paginate [example_asset [''a''], example_asset [''b'']] [] None mode = Inr r
          \<and> prevCursor r = None \<and> nextCursor r = None)
   \<and> (\<exists>r. buildFlatProps [example_asset [''a''], example_asset [''b'']] []
             (Some (lit ''[\"b\"]'')) = Inr r
          \<and> nextCursor r = None \<and> prevCursor r \<noteq> None)"
proof -
  let ?A = "[example_asset [''a''], example_asset [''b'']]"
  have h: "length ?A \<le> 50" by simp
  have i: "flat_cursorIndex ?A [] (Some (lit ''[\"b\"]'')) = 1"
    by code_simp
  from small_collection_cursors [OF h, of "[]" None]
  have a: "\<forall>mode. \<exists>r. paginate ?A [] None mode = Inr r
          \<and> prevCursor r = None \<and> nextCursor r = None"
    by simp
  from small_collection_cursors [OF h, of "[]" "Some (lit ''[\"b\"]'')"] i
  have b: "\<exists>r. buildFlatProps ?A [] (Some (lit ''[\"b\"]'')) = Inr r
          \<and> nextCursor r = None \<and> prevCursor r \<noteq> None"
    by auto
  from h a b show ?thesis by (intro conjI)
qed

text \<open>
  With two assets and the cursor of the second, the previous cursor is defined in both
  views.
\<close>

theorem small_collection_prev_counterexample:
  "length [example_asset [''a''], example_asset [''b'']] \<le> 50
   \<and> map_sum id prevCursor
        (paginate [example_asset [''a''], example_asset [''b'']] [] (Some (lit ''[\"b\"]'')) Flat)
      = Inr (Some (lit ''[\"a\"]''))
   \<and> map_sum id prevCursor
        (paginate [example_asset [''a''], example_asset [''b'']] [] (Some (lit ''[\"b\"]''))
           Namespace)
      = Inr (Some (lit ''[\"a\"]''))"
  by code_simp

end
